theory Spec2Isabelle
  imports Complex_Main
begin

section \<open>Data model\<close>

text \<open>
  Python's \<open>Decimal\<close> prices, sizes, thresholds and tolerances are modelled as exact
  rationals; the decimal values used at the concrete inputs below have few digits, so the
  source's 28-digit arithmetic is exact on them. Instances of Python's \<open>Exception\<close>
  are the values of \<open>exn\<close>, carrying the message.
\<close>

datatype exn = Exception string

datatype side = BUY | SELL

text \<open>
  \<open>mango.Order\<close>: the fields \<open>id\<close> and \<open>size\<close> are named \<open>order_id\<close> and
  \<open>order_size\<close> here.
\<close>

record order =
  order_id :: int
  client_id :: int
  side :: side
  price :: rat
  order_size :: rat

section \<open>SimpleMarketMaker.orders\_require\_action\<close>

text \<open>The local function \<open>within_tolerance\<close> of \<open>orders_require_action\<close>.\<close>

definition within_tolerance :: "rat \<Rightarrow> rat \<Rightarrow> rat \<Rightarrow> bool" where
  "within_tolerance target_value order_value tolerance =
     (let tolerated = order_value * tolerance
      in order_value < target_value + tolerated \<and> order_value > target_value - tolerated)"

text \<open>
  \<open>orders_require_action\<close>; the first argument is \<open>self.existing_order_tolerance\<close>.
\<close>

definition orders_require_action :: "rat \<Rightarrow> order list \<Rightarrow> rat \<Rightarrow> rat \<Rightarrow> bool" where
  "orders_require_action existing_order_tolerance orders price_arg size_arg =
     (length orders = 0 \<or>
      \<not> list_all (\<lambda>ord. within_tolerance price_arg (price ord) existing_order_tolerance \<and>
                        within_tolerance size_arg (order_size ord) existing_order_tolerance)
                 orders)"


text \<open>Concrete orders used to evaluate the definitions.\<close>

definition buy_order :: "rat \<Rightarrow> rat \<Rightarrow> order" where
  "buy_order p s = \<lparr>order_id = 0, client_id = 0, side = BUY, price = p, order_size = s\<rparr>"

section \<open>RootBank.find\_by\_address\<close>

text \<open>
  \<open>RootBank\<close>, with the address it inherits from \<open>AddressableAccount\<close>. The two
  exceptions of \<open>find_by_address\<close> are kept apart by their constructor, which carries the
  address that the message interpolates.
\<close>

record 'k rootbank =
  address :: 'k
  node_banks :: "'k list"
  deposit_index :: rat
  borrow_index :: rat
  last_updated :: nat

datatype 'k find_error = Not_found 'k | Matched_multiple 'k

text \<open>
  \<open>find_by_address\<close> builds a new list \<open>found\<close> and never assigns to \<open>values\<close>; the
  second component of the result is the content of \<open>values\<close> when the call ends.
\<close>

definition find_by_address ::
  "'k rootbank list \<Rightarrow> 'k \<Rightarrow> ('k find_error + 'k rootbank) \<times> 'k rootbank list" where
  "find_by_address values addr =
     (let found = filter (\<lambda>v. address v = addr) values
      in if length found = 0 then (Inl (Not_found addr), values)
         else if length found > 1 then (Inl (Matched_multiple addr), values)
         else (case found of v # _ \<Rightarrow> (Inr v, values)
                           | [] \<Rightarrow> (Inl (Not_found addr), values)))"

definition bank :: "nat \<Rightarrow> rat \<Rightarrow> nat rootbank" where
  "bank a d = \<lparr>address = a, node_banks = [], deposit_index = d, borrow_index = 2,
               last_updated = 0\<rparr>"

section \<open>MarketMaker.pulse\<close>

text \<open>
  The collaborators of \<open>MarketMaker\<close> are not part of the sources at hand
  (\<open>Chain\<close>, \<open>OrderTracker\<close>, \<open>OrderReconciler\<close>, \<open>MarketInstructionBuilder\<close>,
  \<open>CombinableInstructions\<close>, \<open>Context\<close>), so \<open>pulse\<close> takes their behaviour as
  parameters. Each of their calls may raise: a result \<open>Inl e\<close> (or \<open>Some e\<close> where
  nothing is returned) is the exception \<open>e\<close>. A \<open>CombinableInstructions\<close> value is the
  list of its instructions and \<open>+\<close> is concatenation. Logging, the draw of a client id,
  \<open>with_client_id\<close> and the delivery of an event to its observers are taken not to raise;
  \<open>datetime.now()\<close> is the parameter \<open>now\<close>.
\<close>

record model_state =
  not_quoting :: bool
  liquidity_incentives_value :: rat

record reconciled_orders =
  to_cancel :: "order list"
  to_place :: "order list"

text \<open>
  \<open>random_client_id\<close> gives the outcome of the \<open>k\<close>-th draw made from the context;
  the state counts the draws made so far.
\<close>

record Context =
  random_client_id :: "nat \<Rightarrow> int"

record ('tr, 'i) market_maker =
  from_wallet :: "exn + 'i list"
  process :: "model_state \<Rightarrow> (exn + order list) \<times> model_state"
  existing_orders :: "model_state \<Rightarrow> 'tr \<Rightarrow> (exn + order list) \<times> 'tr"
  reconcile :: "model_state \<Rightarrow> order list \<Rightarrow> order list \<Rightarrow> exn + reconciled_orders"
  build_cancel_order_instructions :: "order \<Rightarrow> bool \<Rightarrow> exn + 'i list"
  track :: "order \<Rightarrow> 'tr \<Rightarrow> exn option \<times> 'tr"
  build_place_order_instructions :: "order \<Rightarrow> exn + 'i list"
  build_crank_instructions :: "exn + 'i list"
  build_settle_instructions :: "exn + 'i list"
  build_redeem_instructions :: "exn + 'i list"
  redeem_threshold :: "rat option"
  execute :: "'i list \<Rightarrow> exn option"

text \<open>
  What a pulse does to the world, in program order: the requests made to the instruction
  builder, the registrations with the tracker, the remote submission and the events emitted
  on \<open>pulse_complete\<close> and \<open>pulse_error\<close>.
\<close>

datatype 'i action =
    Build_cancel order
  | Track order
  | Build_place order
  | Build_crank
  | Build_settle
  | Build_redeem
  | Execute "'i list"
  | Pulse_complete nat
  | Pulse_error exn

record ('tr, 'i) pulse_state =
  order_tracker :: 'tr
  draws :: nat
  trace :: "'i action list"

definition with_client_id :: "order \<Rightarrow> int \<Rightarrow> order" where
  "with_client_id ord cid = ord\<lparr>client_id := cid\<rparr>"

definition emit :: "'i action \<Rightarrow> ('tr, 'i) pulse_state \<Rightarrow> ('tr, 'i) pulse_state" where
  "emit a s = s\<lparr>trace := trace s @ [a]\<rparr>"

text \<open>The loop over \<open>reconciled.to_cancel\<close>; the cancels are built with \<open>ok_if_missing=True\<close>.\<close>

fun build_cancellations ::
  "('tr, 'i) market_maker \<Rightarrow> order list \<Rightarrow> 'i list \<Rightarrow> ('tr, 'i) pulse_state \<Rightarrow>
   (exn + 'i list) \<times> ('tr, 'i) pulse_state" where
  "build_cancellations mm [] cancellations s = (Inr cancellations, s)"
| "build_cancellations mm (an_order # rest) cancellations s =
     (let s1 = emit (Build_cancel an_order) s
      in case build_cancel_order_instructions mm an_order True of
           Inl e \<Rightarrow> (Inl e, s1)
         | Inr cancel \<Rightarrow> build_cancellations mm rest (cancellations @ cancel) s1)"

text \<open>The loop over \<open>reconciled.to_place\<close>.\<close>

fun build_place_orders ::
  "('tr, 'i) market_maker \<Rightarrow> Context \<Rightarrow> order list \<Rightarrow> 'i list \<Rightarrow> ('tr, 'i) pulse_state \<Rightarrow>
   (exn + 'i list) \<times> ('tr, 'i) pulse_state" where
  "build_place_orders mm ctx [] place_orders s = (Inr place_orders, s)"
| "build_place_orders mm ctx (an_order # rest) place_orders s =
     (let desired_client_id = random_client_id ctx (draws s);
          to_place_with_client_id = with_client_id an_order desired_client_id;
          tracked = track mm to_place_with_client_id (order_tracker s);
          s1 = emit (Track to_place_with_client_id)
                 (s\<lparr>draws := Suc (draws s), order_tracker := snd tracked\<rparr>)
      in case fst tracked of
           Some e \<Rightarrow> (Inl e, s1)
         | None \<Rightarrow>
             (let s2 = emit (Build_place to_place_with_client_id) s1
              in case build_place_order_instructions mm to_place_with_client_id of
                   Inl e \<Rightarrow> (Inl e, s2)
                 | Inr place_order \<Rightarrow>
                     build_place_orders mm ctx rest (place_orders @ place_order) s2))"

text \<open>
  The condition of the redeem:
  \<open>self.redeem_threshold is not None and
  model_state.inventory.liquidity_incentives.value > self.redeem_threshold\<close>.
\<close>

definition redeem_wanted :: "('tr, 'i) market_maker \<Rightarrow> model_state \<Rightarrow> bool" where
  "redeem_wanted mm model_state =
     (case redeem_threshold mm of
        None \<Rightarrow> False
      | Some threshold \<Rightarrow> liquidity_incentives_value model_state > threshold)"

text \<open>
  The end of the \<open>try\<close> block: crank, settle, the optional redeem, the one \<open>execute\<close> of
  the combined instructions and the \<open>pulse_complete\<close> event carrying \<open>datetime.now()\<close>.
\<close>

definition submit ::
  "('tr, 'i) market_maker \<Rightarrow> nat \<Rightarrow> model_state \<Rightarrow> 'i list \<Rightarrow> 'i list \<Rightarrow> 'i list \<Rightarrow>
   ('tr, 'i) pulse_state \<Rightarrow> exn option \<times> ('tr, 'i) pulse_state" where
  "submit mm now model_state payer cancellations place_orders s =
     (let s1 = emit Build_crank s
      in case build_crank_instructions mm of
           Inl e \<Rightarrow> (Some e, s1)
         | Inr crank \<Rightarrow>
       (let s2 = emit Build_settle s1
        in case build_settle_instructions mm of
             Inl e \<Rightarrow> (Some e, s2)
           | Inr settle \<Rightarrow>
         (let wanted = redeem_wanted mm model_state;
              s3 = (if wanted then emit Build_redeem s2 else s2)
          in case (if wanted then build_redeem_instructions mm else Inr []) of
               Inl e \<Rightarrow> (Some e, s3)
             | Inr redeem \<Rightarrow>
           (let batch = payer @ cancellations @ place_orders @ crank @ settle @ redeem;
                s4 = emit (Execute batch) s3
            in case execute mm batch of
                 Some e \<Rightarrow> (Some e, s4)
               | None \<Rightarrow> (None, emit (Pulse_complete now) s4)))))"

text \<open>The two loops followed by the submission.\<close>

definition build_and_submit ::
  "('tr, 'i) market_maker \<Rightarrow> Context \<Rightarrow> nat \<Rightarrow> model_state \<Rightarrow> 'i list \<Rightarrow> reconciled_orders \<Rightarrow>
   ('tr, 'i) pulse_state \<Rightarrow> exn option \<times> ('tr, 'i) pulse_state" where
  "build_and_submit mm ctx now model_state payer reconciled s =
     (case build_cancellations mm (to_cancel reconciled) [] s of
        (Inl e, s1) \<Rightarrow> (Some e, s1)
      | (Inr cancellations, s1) \<Rightarrow>
          (case build_place_orders mm ctx (to_place reconciled) [] s1 of
             (Inl e, s2) \<Rightarrow> (Some e, s2)
           | (Inr place_orders, s2) \<Rightarrow>
               submit mm now model_state payer cancellations place_orders s2))"

text \<open>
  The body of the \<open>try\<close> block: \<open>Some e\<close> when it ends by raising \<open>e\<close>, \<open>None\<close> when it
  ends normally (by the early \<open>return\<close> or at its end). \<open>process\<close> may change the model
  state it is given; what follows reads the changed state.
\<close>

definition pulse_body ::
  "('tr, 'i) market_maker \<Rightarrow> Context \<Rightarrow> nat \<Rightarrow> model_state \<Rightarrow> ('tr, 'i) pulse_state \<Rightarrow>
   exn option \<times> ('tr, 'i) pulse_state" where
  "pulse_body mm ctx now model_state s =
     (case from_wallet mm of
        Inl e \<Rightarrow> (Some e, s)
      | Inr payer \<Rightarrow>
          (case process mm model_state of
             (Inl e, model_state1) \<Rightarrow> (Some e, s)
           | (Inr desired_orders, model_state1) \<Rightarrow>
               if not_quoting model_state1 then (None, s)
               else
                 (case existing_orders mm model_state1 (order_tracker s) of
                    (Inl e, tr) \<Rightarrow> (Some e, s\<lparr>order_tracker := tr\<rparr>)
                  | (Inr existing, tr) \<Rightarrow>
                      (case reconcile mm model_state1 existing desired_orders of
                         Inl e \<Rightarrow> (Some e, s\<lparr>order_tracker := tr\<rparr>)
                       | Inr reconciled \<Rightarrow>
                           build_and_submit mm ctx now model_state1 payer reconciled
                             (s\<lparr>order_tracker := tr\<rparr>)))))"

text \<open>
  \<open>pulse\<close>: the \<open>try\<close> block under its handler \<open>except Exception\<close>, which emits the
  exception on \<open>pulse_error\<close>. The first component is the exception that reaches the
  caller, if any.
\<close>

definition pulse ::
  "('tr, 'i) market_maker \<Rightarrow> Context \<Rightarrow> nat \<Rightarrow> model_state \<Rightarrow> ('tr, 'i) pulse_state \<Rightarrow>
   exn option \<times> ('tr, 'i) pulse_state" where
  "pulse mm ctx now model_state s =
     (case pulse_body mm ctx now model_state s of
        (None, s1) \<Rightarrow> (None, s1)
      | (Some exception, s1) \<Rightarrow> (None, emit (Pulse_error exception) s1))"

text \<open>The actions a pulse adds to the trace.\<close>

definition pulse_actions ::
  "('tr, 'i) market_maker \<Rightarrow> Context \<Rightarrow> nat \<Rightarrow> model_state \<Rightarrow> ('tr, 'i) pulse_state \<Rightarrow>
   'i action list" where
  "pulse_actions mm ctx now model_state s =
     drop (length (trace s)) (trace (snd (pulse mm ctx now model_state s)))"

text \<open>
  What the loop over \<open>to_place\<close> is expected to do: the \<open>k\<close>-th order gets the
  \<open>k\<close>-th client id drawn from the context, counted from the draws already made; each
  order with its id is tracked and then its placement is built.
\<close>

fun assign_client_ids :: "Context \<Rightarrow> nat \<Rightarrow> order list \<Rightarrow> order list" where
  "assign_client_ids ctx k [] = []"
| "assign_client_ids ctx k (p # ps) =
     with_client_id p (random_client_id ctx k) # assign_client_ids ctx (Suc k) ps"

fun place_actions :: "order list \<Rightarrow> 'i action list" where
  "place_actions [] = []"
| "place_actions (p # ps) = Track p # Build_place p # place_actions ps"

fun is_execute :: "'i action \<Rightarrow> bool" where
  "is_execute (Execute batch) = True"
| "is_execute other = False"

fun is_pulse_error :: "'i action \<Rightarrow> bool" where
  "is_pulse_error (Pulse_error e) = True"
| "is_pulse_error other = False"

subsection \<open>A concrete market maker\<close>

text \<open>
  Collaborators used to evaluate \<open>pulse\<close> on concrete inputs: the tracker is the list of
  tracked orders, every existing order is cancelled and every desired order placed, and
  each builder returns one named instruction. The threshold, the outcome of \<open>execute\<close>
  and the flag that the chain leaves in the model state are parameters.
\<close>

datatype instruction = Payer | Cancel int | Place int | Crank | Settle | Redeem

definition demo_maker ::
  "rat option \<Rightarrow> (instruction list \<Rightarrow> exn option) \<Rightarrow> bool \<Rightarrow>
   (order list, instruction) market_maker" where
  "demo_maker threshold exec suppress =
     \<lparr>from_wallet = Inr [Payer],
      process = (\<lambda>ms. (Inr [buy_order 10 1], ms\<lparr>not_quoting := suppress\<rparr>)),
      existing_orders = (\<lambda>ms tr. (Inr tr, tr)),
      reconcile = (\<lambda>ms existing desired. Inr \<lparr>to_cancel = existing, to_place = desired\<rparr>),
      build_cancel_order_instructions = (\<lambda>ord ok_if_missing. Inr [Cancel (client_id ord)]),
      track = (\<lambda>ord tr. (None, tr @ [ord])),
      build_place_order_instructions = (\<lambda>ord. Inr [Place (client_id ord)]),
      build_crank_instructions = Inr [Crank],
      build_settle_instructions = Inr [Settle],
      build_redeem_instructions = Inr [Redeem],
      redeem_threshold = threshold,
      execute = exec\<rparr>"

definition demo_context :: Context where
  "demo_context = \<lparr>random_client_id = (\<lambda>k. 1000 + int k)\<rparr>"

definition demo_model_state :: model_state where
  "demo_model_state = \<lparr>not_quoting = False, liquidity_incentives_value = 5\<rparr>"

definition old_order :: order where
  "old_order = \<lparr>order_id = 3, client_id = 7, side = BUY, price = 9, order_size = 1\<rparr>"

definition demo_state :: "(order list, instruction) pulse_state" where
  "demo_state = \<lparr>order_tracker = [old_order], draws = 0, trace = []\<rparr>"

definition accepted :: "instruction list \<Rightarrow> exn option" where
  "accepted batch = None"

definition rejected :: "instruction list \<Rightarrow> exn option" where
  "rejected batch = Some (Exception ''Transaction failed'')"

section \<open>RetryWithPauses\<close>

text \<open>
  Modelled from the spec: \<open>RetryWithPauses.run\<close>. The class is not among the sources at
  hand; only its tests (\<open>tests/test_retrier.py\<close>) are. The outcome of \<open>run\<close> is the
  result of the wrapped operation, or the failure that reaches the caller once the attempts
  are exhausted. The policy is specified for a pause sequence of length at least 1; for the
  empty sequence the outcome is \<open>Not_specified\<close>.
\<close>

datatype 'a run_outcome = Succeeded 'a | Exhausted exn | Not_specified

text \<open>
  Modelled from the spec: the wrapped operation may change a state of its own (the call
  counter of the tests); \<open>calls\<close> counts the attempts made and \<open>paused\<close> lists the
  pauses taken, in order.
\<close>

record 's retry_state =
  func_state :: 's
  calls :: nat
  paused :: "rat list"

text \<open>
  Modelled from the spec: the state \<open>Attempting(k)\<close> with the pauses from the \<open>k\<close>-th on
  still ahead. The operation is attempted; on success its result is returned at once and
  no pause is consumed; on failure, when attempts remain, the next pause is taken and the
  operation is retried; when the last attempt fails, the failure goes to the caller
  unchanged.
\<close>

fun attempting ::
  "('s \<Rightarrow> (exn + 'a) \<times> 's) \<Rightarrow> rat list \<Rightarrow> 's retry_state \<Rightarrow> 'a run_outcome \<times> 's retry_state" where
  "attempting func [] st = (Not_specified, st)"
| "attempting func (pause # remaining) st =
     (case func (func_state st) of
        (Inr result, fs) \<Rightarrow> (Succeeded result, st\<lparr>func_state := fs, calls := Suc (calls st)\<rparr>)
      | (Inl failure, fs) \<Rightarrow>
          (let st1 = st\<lparr>func_state := fs, calls := Suc (calls st)\<rparr>
           in if remaining = [] then (Exhausted failure, st1)
              else attempting func remaining (st1\<lparr>paused := paused st1 @ [pause]\<rparr>)))"

text \<open>Modelled from the spec: \<open>run\<close> starts at the first attempt, with nothing counted.\<close>

definition run ::
  "('s \<Rightarrow> (exn + 'a) \<times> 's) \<Rightarrow> rat list \<Rightarrow> 's \<Rightarrow> 'a run_outcome \<times> 's retry_state" where
  "run func pauses fs = attempting func pauses \<lparr>func_state = fs, calls = 0, paused = []\<rparr>"

text \<open>
  The wrapped functions of \<open>tests/test_retrier.py\<close>: \<open>func\<close> of \<open>test_0_retry\<close> to
  \<open>test_3_retries\<close> adds 1 to \<open>FuncScope.called\<close> and raises \<open>Exception("Test")\<close>;
  the other one counts its calls and returns 1.
\<close>

definition raising_func :: "nat \<Rightarrow> (exn + int) \<times> nat" where
  "raising_func called = (Inl (Exception ''Test''), called + 1)"

definition returning_func :: "nat \<Rightarrow> (exn + int) \<times> nat" where
  "returning_func called = (Inr 1, called + 1)"

section \<open>OrderTracker\<close>

text \<open>
  Modelled from the spec: the tracked order set of \<open>OrderTracker\<close>
  (\<open>mango/marketmaking/ordertracker.py\<close> is not among the sources at hand): a mapping from
  correlation id (the client id) to order, kept in insertion order.
\<close>

type_synonym tracked_orders = "(int \<times> order) list"

text \<open>
  Modelled from the spec: \<open>track\<close> inserts the order under its correlation id. The
  specification requires the id not to be present; where it is, the entry is replaced, as
  an insertion into a mapping does.
\<close>

fun tracker_insert :: "int \<Rightarrow> order \<Rightarrow> tracked_orders \<Rightarrow> tracked_orders" where
  "tracker_insert cid ord [] = [(cid, ord)]"
| "tracker_insert cid ord ((cid', ord') # rest) =
     (if cid = cid' then (cid, ord) # rest else (cid', ord') # tracker_insert cid ord rest)"

definition tracker_track :: "order \<Rightarrow> tracked_orders \<Rightarrow> tracked_orders" where
  "tracker_track ord tracked = tracker_insert (client_id ord) ord tracked"

text \<open>
  Modelled from the spec: \<open>existing_orders\<close> returns every tracked order whose correlation
  id is not present in the remote view, followed by every order the remote view reports;
  the tracked entries whose id the remote view shows are dropped by the call, so the second
  component is the tracked set it leaves.
\<close>

definition tracker_existing_orders ::
  "order list \<Rightarrow> tracked_orders \<Rightarrow> order list \<times> tracked_orders" where
  "tracker_existing_orders remote_order_view tracked =
     (let in_flight = filter (\<lambda>(cid, ord). cid \<notin> set (map client_id remote_order_view)) tracked
      in (map snd in_flight @ remote_order_view, in_flight))"

text \<open>Modelled from the spec: \<open>untrack\<close> removes an entry; removing an absent id is a no-op.\<close>

definition tracker_untrack :: "int \<Rightarrow> tracked_orders \<Rightarrow> tracked_orders" where
  "tracker_untrack cid tracked = filter (\<lambda>(cid', ord). cid' \<noteq> cid) tracked"

text \<open>An order as placed locally, and the same order as the remote view reports it.\<close>

definition placed_order :: order where
  "placed_order = \<lparr>order_id = 0, client_id = 1000, side = BUY, price = 10, order_size = 1\<rparr>"

definition remote_order :: order where
  "remote_order = \<lparr>order_id = 55, client_id = 1000, side = BUY, price = 10, order_size = 1\<rparr>"

section \<open>Tolerance test\<close>


lemma within_tolerance_zero: "\<not> within_tolerance target v 0"
  by (simp add: within_tolerance_def)

text \<open>
  C9. With a tolerance of exactly 0, \<open>orders_require_action\<close> returns True even when every
  existing order's price and size equal the desired price and size: both comparisons of
  \<open>within_tolerance\<close> are strict, so no value lies strictly between target and target.
\<close>

theorem orders_require_action_zero_tolerance:
  "(\<forall>ord \<in> set orders. price ord = p \<and> order_size ord = s) \<Longrightarrow>
   orders_require_action 0 orders p s"
  by (cases orders) (simp_all add: orders_require_action_def within_tolerance_zero)

theorem orders_require_action_zero_tolerance_witness:
  "price (buy_order 100 5) = 100 \<and> order_size (buy_order 100 5) = 5 \<and>
   orders_require_action 0 [buy_order 100 5] 100 5"
proof -
  have h: "\<forall>ord \<in> set [buy_order 100 5]. price ord = 100 \<and> order_size ord = 5"
    by (simp add: buy_order_def)
  from orders_require_action_zero_tolerance [OF h] show ?thesis
    by (simp add: buy_order_def)
qed




section \<open>Lookup of a root bank\<close>

lemma find_by_address_cases:
  "fst (find_by_address values a) =
     (case filter (\<lambda>v. address v = a) values of
        [] \<Rightarrow> Inl (Not_found a)
      | [v] \<Rightarrow> Inr v
      | _ \<Rightarrow> Inl (Matched_multiple a))"
  by (simp add: find_by_address_def Let_def split: list.splits)

text \<open>
  C10. \<open>find_by_address\<close> raises exactly when no element or more than one element of
  \<open>values\<close> has the given address; otherwise it returns the only element with that
  address; \<open>values\<close> is left as it was.
\<close>

theorem find_by_address_unique:
  "((\<exists>e. fst (find_by_address values a) = Inl e) \<longleftrightarrow>
      (length (filter (\<lambda>v. address v = a) values) = 0 \<or>
       length (filter (\<lambda>v. address v = a) values) > 1)) \<and>
   (\<forall>v. fst (find_by_address values a) = Inr v \<longleftrightarrow>
      filter (\<lambda>v. address v = a) values = [v]) \<and>
   (\<forall>v. fst (find_by_address values a) = Inr v \<longrightarrow>
      v \<in> set values \<and> address v = a \<and> (\<forall>u \<in> set values. address u = a \<longrightarrow> u = v)) \<and>
   snd (find_by_address values a) = values"
proof -
  let ?found = "filter (\<lambda>v. address v = a) values"
  have raises: "(\<exists>e. fst (find_by_address values a) = Inl e) \<longleftrightarrow>
      (length ?found = 0 \<or> length ?found > 1)"
    by (auto simp: find_by_address_cases split: list.splits)
  have returns: "\<forall>v. fst (find_by_address values a) = Inr v \<longleftrightarrow> ?found = [v]"
    by (auto simp: find_by_address_cases split: list.splits)
  have uniq: "v \<in> set values \<and> address v = a \<and> (\<forall>u \<in> set values. address u = a \<longrightarrow> u = v)"
    if "?found = [v]" for v
  proof -
    have "set ?found = {v}" using that by simp
    then have "{u \<in> set values. address u = a} = {v}" by simp
    then show ?thesis by blast
  qed
  have frame: "snd (find_by_address values a) = values"
    by (simp add: find_by_address_def Let_def split: list.splits)
  have unique: "\<forall>v. fst (find_by_address values a) = Inr v \<longrightarrow>
      v \<in> set values \<and> address v = a \<and> (\<forall>u \<in> set values. address u = a \<longrightarrow> u = v)"
  proof (intro allI impI)
    fix v
    assume "fst (find_by_address values a) = Inr v"
    with returns have "?found = [v]" by blast
    then show "v \<in> set values \<and> address v = a \<and> (\<forall>u \<in> set values. address u = a \<longrightarrow> u = v)"
      by (rule uniq)
  qed
  show ?thesis
    by (intro conjI) (rule raises, rule returns, rule unique, rule frame)
qed

theorem find_by_address_unique_witness:
  "fst (find_by_address [bank 1 5, bank 2 7, bank 3 5] 2) = Inr (bank 2 7) \<and>
   bank 2 7 \<in> set [bank 1 5, bank 2 7, bank 3 5] \<and> address (bank 2 7) = 2 \<and>
   snd (find_by_address [bank 1 5, bank 2 7, bank 3 5] 2) = [bank 1 5, bank 2 7, bank 3 5]"
proof -
  let ?vs = "[bank 1 5, bank 2 7, bank 3 5]"
  have f: "filter (\<lambda>v. address v = 2) ?vs = [bank 2 7]"
    by (simp add: bank_def)
  note u = find_by_address_unique [of ?vs 2]
  from u have r: "\<forall>v. fst (find_by_address ?vs 2) = Inr v \<longleftrightarrow>
      filter (\<lambda>v. address v = 2) ?vs = [v]" by (elim conjE)
  from r f have 1: "fst (find_by_address ?vs 2) = Inr (bank 2 7)" by blast
  from u have "\<forall>v. fst (find_by_address ?vs 2) = Inr v \<longrightarrow> v \<in> set ?vs \<and> address v = 2 \<and> (\<forall>u \<in> set ?vs. address u = 2 \<longrightarrow> u = v)"
    by (elim conjE)
  with 1 have 2: "bank 2 7 \<in> set ?vs \<and> address (bank 2 7) = 2" by blast
  from u have 3: "snd (find_by_address ?vs 2) = ?vs" by (elim conjE)
  from 1 2 3 show ?thesis by blast
qed

section \<open>One pulse, step by step\<close>

text \<open>
  Each part of the \<open>try\<close> block only appends to the trace. The lemmas give what is
  appended: either the block stops before the submission, and nothing appended is an
  \<open>Execute\<close>, or every step up to the submission returned and the appended actions are
  the cancels, the tracked placements, crank, settle, the optional redeem and the one
  \<open>Execute\<close>. The block itself never emits on \<open>pulse_error\<close>.
\<close>

lemma trace_emit [simp]: "trace (emit a s) = trace s @ [a]"
  and order_tracker_emit [simp]: "order_tracker (emit a s) = order_tracker s"
  and draws_emit [simp]: "draws (emit a s) = draws s"
  by (simp_all add: emit_def)

lemma build_cancellations_result:
  "build_cancellations mm cs acc s = (r, s') \<Longrightarrow>
     order_tracker s' = order_tracker s \<and> draws s' = draws s \<and>
     (\<exists>k \<le> length cs. trace s' = trace s @ map Build_cancel (take k cs)) \<and>
     (\<forall>out. r = Inr out \<longrightarrow>
        trace s' = trace s @ map Build_cancel cs \<and>
        (\<exists>built. map (\<lambda>c. build_cancel_order_instructions mm c True) cs = map Inr built \<and>
                  out = acc @ concat built))"
proof (induction cs arbitrary: acc s)
  case Nil
  then show ?case by auto
next
  case (Cons c cs)
  show ?case
  proof (cases "build_cancel_order_instructions mm c True")
    case (Inl e)
    with Cons.prems have "r = Inl e" "s' = emit (Build_cancel c) s" by (auto simp: Let_def)
    then show ?thesis by (auto intro: exI [of _ 1])
  next
    case (Inr cancel)
    with Cons.prems have rec: "build_cancellations mm cs (acc @ cancel) (emit (Build_cancel c) s) = (r, s')"
      by (simp add: Let_def)
    note ih = Cons.IH [OF rec]
    from ih obtain k where k: "k \<le> length cs"
      "trace s' = trace (emit (Build_cancel c) s) @ map Build_cancel (take k cs)" by blast
    have a: "\<exists>k \<le> length (c # cs). trace s' = trace s @ map Build_cancel (take k (c # cs))"
      using k by (intro exI [of _ "Suc k"]) simp
    have b: "trace s' = trace s @ map Build_cancel (c # cs) \<and>
        (\<exists>built. map (\<lambda>c. build_cancel_order_instructions mm c True) (c # cs) = map Inr built \<and>
                  out = acc @ concat built)" if "r = Inr out" for out
    proof -
      from ih that obtain built where
        "trace s' = trace (emit (Build_cancel c) s) @ map Build_cancel cs"
        "map (\<lambda>c. build_cancel_order_instructions mm c True) cs = map Inr built"
        "out = (acc @ cancel) @ concat built" by blast
      then show ?thesis using Inr by (intro conjI exI [of _ "cancel # built"]) simp_all
    qed
    from ih a b show ?thesis by simp
  qed
qed

lemma place_actions_no_execute: "a \<in> set (place_actions ps) \<Longrightarrow> \<not> is_execute a \<and> \<not> is_pulse_error a"
  by (induction ps) auto

lemma build_place_orders_result:
  "build_place_orders mm ctx ps acc s = (r, s') \<Longrightarrow>
     (\<exists>k. trace s' = trace s @ take k (place_actions (assign_client_ids ctx (draws s) ps))) \<and>
     (\<forall>out. r = Inr out \<longrightarrow>
        trace s' = trace s @ place_actions (assign_client_ids ctx (draws s) ps) \<and>
        draws s' = draws s + length ps \<and>
        (\<exists>built. map (build_place_order_instructions mm) (assign_client_ids ctx (draws s) ps)
                    = map Inr built \<and>
                  out = acc @ concat built))"
proof (induction ps arbitrary: acc s)
  case Nil
  then show ?case by auto
next
  case (Cons p ps)
  let ?p = "with_client_id p (random_client_id ctx (draws s))"
  let ?tracked = "track mm ?p (order_tracker s)"
  let ?s1 = "emit (Track ?p) (s\<lparr>draws := Suc (draws s), order_tracker := snd ?tracked\<rparr>)"
  let ?s2 = "emit (Build_place ?p) ?s1"
  let ?all = "place_actions (assign_client_ids ctx (draws s) (p # ps))"
  have all: "?all = Track ?p # Build_place ?p # place_actions (assign_client_ids ctx (Suc (draws s)) ps)"
    by simp
  show ?case
  proof (cases "fst ?tracked")
    case (Some e)
    with Cons.prems have "r = Inl e" "s' = ?s1" by (auto simp: Let_def)
    then have "trace s' = trace s @ take 1 ?all" by simp
    with \<open>r = Inl e\<close> show ?thesis by blast
  next
    case None
    show ?thesis
    proof (cases "build_place_order_instructions mm ?p")
      case (Inl e)
      with None Cons.prems have "r = Inl e" "s' = ?s2" by (auto simp: Let_def)
      then have "trace s' = trace s @ take 2 ?all" by simp
      with \<open>r = Inl e\<close> show ?thesis by blast
    next
      case (Inr place_order)
      with None Cons.prems have rec:
        "build_place_orders mm ctx ps (acc @ place_order) ?s2 = (r, s')"
        by (simp add: Let_def)
      note ih = Cons.IH [OF rec]
      have d2: "draws ?s2 = Suc (draws s)" and t2: "trace ?s2 = trace s @ [Track ?p, Build_place ?p]"
        by simp_all
      from ih obtain k where
        "trace s' = trace ?s2 @ take k (place_actions (assign_client_ids ctx (draws ?s2) ps))"
        by blast
      then have "trace s' = trace s @ take (Suc (Suc k)) ?all"
        by (simp add: d2 t2)
      then have a: "\<exists>k. trace s' = trace s @ take k ?all" ..
      have b: "trace s' = trace s @ ?all \<and> draws s' = draws s + length (p # ps) \<and>
          (\<exists>built. map (build_place_order_instructions mm) (assign_client_ids ctx (draws s) (p # ps))
                      = map Inr built \<and> out = acc @ concat built)" if "r = Inr out" for out
      proof -
        from ih that obtain built where
          1: "trace s' = trace ?s2 @ place_actions (assign_client_ids ctx (draws ?s2) ps)" and
          2: "draws s' = draws ?s2 + length ps" and
          3: "map (build_place_order_instructions mm) (assign_client_ids ctx (draws ?s2) ps) = map Inr built" and
          4: "out = (acc @ place_order) @ concat built" by blast
        have "map (build_place_order_instructions mm) (assign_client_ids ctx (draws s) (p # ps))
                = map Inr (place_order # built)"
          using 3 Inr by (simp add: d2)
        moreover have "out = acc @ concat (place_order # built)" using 4 by simp
        moreover have "trace s' = trace s @ ?all" using 1 by (simp add: d2 t2)
        moreover have "draws s' = draws s + length (p # ps)" using 2 by (simp add: d2)
        ultimately show ?thesis by blast
      qed
      from a b show ?thesis by blast
    qed
  qed
qed

lemma submit_frame:
  "submit mm now ms payer cs ps s = (r, s') \<Longrightarrow>
     order_tracker s' = order_tracker s \<and> draws s' = draws s"
  unfolding submit_def Let_def
  by (auto split: sum.splits option.splits if_splits)

lemma submit_result:
  assumes "submit mm now ms payer cs ps s = (r, s')"
  shows "(\<exists>acts e. trace s' = trace s @ acts \<and> r = Some e \<and>
            (\<forall>a \<in> set acts. \<not> is_execute a \<and> \<not> is_pulse_error a)) \<or>
         (\<exists>crank settle redeem.
            build_crank_instructions mm = Inr crank \<and>
            build_settle_instructions mm = Inr settle \<and>
            (if redeem_wanted mm ms then build_redeem_instructions mm = Inr redeem
             else redeem = []) \<and>
            r = execute mm (payer @ cs @ ps @ crank @ settle @ redeem) \<and>
            trace s' = trace s @ [Build_crank, Build_settle] @
              (if redeem_wanted mm ms then [Build_redeem] else []) @
              [Execute (payer @ cs @ ps @ crank @ settle @ redeem)] @
              (case r of None \<Rightarrow> [Pulse_complete now] | Some e \<Rightarrow> []))"
proof (cases "build_crank_instructions mm")
  case (Inl e)
  with assms have "trace s' = trace s @ [Build_crank]" "r = Some e"
    by (auto simp: submit_def Let_def)
  then show ?thesis by auto
next
  case crank: (Inr crank)
  show ?thesis
  proof (cases "build_settle_instructions mm")
    case (Inl e)
    with crank assms have "trace s' = trace s @ [Build_crank, Build_settle]" "r = Some e"
      by (auto simp: submit_def Let_def)
    then show ?thesis by auto
  next
    case settle: (Inr settle)
    show ?thesis
    proof (cases "redeem_wanted mm ms")
      case False
      with crank settle assms have
        "r = execute mm (payer @ cs @ ps @ crank @ settle @ [])"
        "trace s' = trace s @ [Build_crank, Build_settle] @ [] @
              [Execute (payer @ cs @ ps @ crank @ settle @ [])] @
              (case r of None \<Rightarrow> [Pulse_complete now] | Some e \<Rightarrow> [])"
        by (auto simp: submit_def Let_def split: option.splits)
      with crank settle False show ?thesis by auto
    next
      case True
      show ?thesis
      proof (cases "build_redeem_instructions mm")
        case (Inl e)
        with True crank settle assms have
          "trace s' = trace s @ [Build_crank, Build_settle, Build_redeem]" "r = Some e"
          by (auto simp: submit_def Let_def)
        then show ?thesis by auto
      next
        case (Inr redeem)
        with True crank settle assms have
          "r = execute mm (payer @ cs @ ps @ crank @ settle @ redeem)"
          "trace s' = trace s @ [Build_crank, Build_settle] @ [Build_redeem] @
              [Execute (payer @ cs @ ps @ crank @ settle @ redeem)] @
              (case r of None \<Rightarrow> [Pulse_complete now] | Some e \<Rightarrow> [])"
          by (auto simp: submit_def Let_def split: option.splits)
        with crank settle True Inr show ?thesis by auto
      qed
    qed
  qed
qed

lemma cancel_actions_no_execute:
  "a \<in> set (map Build_cancel cs) \<Longrightarrow> \<not> is_execute a \<and> \<not> is_pulse_error a"
  by auto

lemma build_and_submit_result:
  assumes "build_and_submit mm ctx now ms payer reconciled s = (r, s')"
  shows "\<exists>acts. trace s' = trace s @ acts \<and> (\<forall>a \<in> set acts. \<not> is_pulse_error a) \<and>
     ((\<forall>a \<in> set acts. \<not> is_execute a) \<or>
      (\<exists>cancels places crank settle redeem.
         map (\<lambda>c. build_cancel_order_instructions mm c True) (to_cancel reconciled)
           = map Inr cancels \<and>
         map (build_place_order_instructions mm)
             (assign_client_ids ctx (draws s) (to_place reconciled)) = map Inr places \<and>
         build_crank_instructions mm = Inr crank \<and>
         build_settle_instructions mm = Inr settle \<and>
         (if redeem_wanted mm ms then build_redeem_instructions mm = Inr redeem
          else redeem = []) \<and>
         r = execute mm (payer @ concat cancels @ concat places @ crank @ settle @ redeem) \<and>
         acts = map Build_cancel (to_cancel reconciled) @
                place_actions (assign_client_ids ctx (draws s) (to_place reconciled)) @
                [Build_crank, Build_settle] @
                (if redeem_wanted mm ms then [Build_redeem] else []) @
                [Execute (payer @ concat cancels @ concat places @ crank @ settle @ redeem)] @
                (case r of None \<Rightarrow> [Pulse_complete now] | Some e \<Rightarrow> [])))"
proof -
  let ?cs = "to_cancel reconciled" and ?ps = "assign_client_ids ctx (draws s) (to_place reconciled)"
  obtain r1 s1 where c: "build_cancellations mm ?cs [] s = (r1, s1)"
    by (cases "build_cancellations mm ?cs [] s")
  note cr = build_cancellations_result [OF c]
  show ?thesis
  proof (cases r1)
    case (Inl e)
    with c assms have "s' = s1" by (simp add: build_and_submit_def)
    moreover from cr obtain k where "trace s1 = trace s @ map Build_cancel (take k ?cs)" by blast
    ultimately have "trace s' = trace s @ map Build_cancel (take k ?cs)" by simp
    moreover have "\<forall>a \<in> set (map Build_cancel (take k ?cs)). \<not> is_execute a \<and> \<not> is_pulse_error a"
      using cancel_actions_no_execute by blast
    ultimately show ?thesis by blast
  next
    case (Inr cancellations)
    with cr obtain cancels where
      t1: "trace s1 = trace s @ map Build_cancel ?cs" and
      m1: "map (\<lambda>c. build_cancel_order_instructions mm c True) ?cs = map Inr cancels" and
      o1: "cancellations = concat cancels" by auto
    from cr have d1: "draws s1 = draws s" by simp
    obtain r2 s2 where p: "build_place_orders mm ctx (to_place reconciled) [] s1 = (r2, s2)"
      by (cases "build_place_orders mm ctx (to_place reconciled) [] s1")
    note pr = build_place_orders_result [OF p, unfolded d1]
    show ?thesis
    proof (cases r2)
      case (Inl e)
      with c p Inr assms have "s' = s2" by (simp add: build_and_submit_def)
      moreover from pr obtain k where "trace s2 = trace s1 @ take k (place_actions ?ps)" by blast
      ultimately have "trace s' = trace s @ (map Build_cancel ?cs @ take k (place_actions ?ps))"
        using t1 by simp
      moreover have "\<forall>a \<in> set (map Build_cancel ?cs @ take k (place_actions ?ps)).
          \<not> is_execute a \<and> \<not> is_pulse_error a"
        using place_actions_no_execute [of _ ?ps] in_set_takeD [of _ k "place_actions ?ps"]
        by auto
      ultimately show ?thesis by blast
    next
      case place: (Inr place_orders)
      with pr obtain places where
        t2: "trace s2 = trace s1 @ place_actions ?ps" and
        m2: "map (build_place_order_instructions mm) ?ps = map Inr places" and
        o2: "place_orders = concat places" by auto
      from c p Inr place assms have
        sub: "submit mm now ms payer (concat cancels) (concat places) s2 = (r, s')"
        by (simp add: build_and_submit_def o1 o2)
      let ?pre = "map Build_cancel ?cs @ place_actions ?ps"
      have pre: "\<forall>a \<in> set ?pre. \<not> is_execute a \<and> \<not> is_pulse_error a"
        using place_actions_no_execute [of _ ?ps] by auto
      have t12: "trace s2 = trace s @ ?pre" using t1 t2 by simp
      from submit_result [OF sub] show ?thesis
      proof (elim disjE exE conjE)
        fix acts e
        assume "trace s' = trace s2 @ acts" "r = Some e"
          "\<forall>a \<in> set acts. \<not> is_execute a \<and> \<not> is_pulse_error a"
        then have "trace s' = trace s @ (?pre @ acts)"
          "\<forall>a \<in> set (?pre @ acts). \<not> is_execute a \<and> \<not> is_pulse_error a"
          using t12 pre by auto
        then show ?thesis by blast
      next
        fix crank settle redeem
        let ?batch = "payer @ concat cancels @ concat places @ crank @ settle @ redeem"
        let ?tail = "[Build_crank, Build_settle] @
              (if redeem_wanted mm ms then [Build_redeem] else []) @ [Execute ?batch] @
              (case r of None \<Rightarrow> [Pulse_complete now] | Some e \<Rightarrow> [])"
        assume a: "build_crank_instructions mm = Inr crank"
          "build_settle_instructions mm = Inr settle"
          "if redeem_wanted mm ms then build_redeem_instructions mm = Inr redeem else redeem = []"
          "r = execute mm ?batch"
          "trace s' = trace s2 @ ?tail"
        have tail: "\<forall>a \<in> set ?tail. \<not> is_pulse_error a"
          by (auto split: option.splits)
        have "trace s' = trace s @ (?pre @ ?tail)" using a(5) t12 by simp
        moreover have "\<forall>a \<in> set (?pre @ ?tail). \<not> is_pulse_error a"
          using pre tail by (metis Un_iff set_append)
        moreover have "?pre @ ?tail = map Build_cancel ?cs @ place_actions ?ps @ ?tail" by simp
        ultimately show ?thesis using m1 m2 a(1-4) by metis
      qed
    qed
  qed
qed

lemma pulse_body_result:
  assumes "pulse_body mm ctx now ms s = (r, s')"
  shows "\<exists>acts. trace s' = trace s @ acts \<and> (\<forall>a \<in> set acts. \<not> is_pulse_error a) \<and>
     ((\<forall>a \<in> set acts. \<not> is_execute a) \<or>
      (\<exists>payer desired ms1 existing tr reconciled cancels places crank settle redeem.
         from_wallet mm = Inr payer \<and>
         process mm ms = (Inr desired, ms1) \<and> \<not> not_quoting ms1 \<and>
         existing_orders mm ms1 (order_tracker s) = (Inr existing, tr) \<and>
         reconcile mm ms1 existing desired = Inr reconciled \<and>
         map (\<lambda>c. build_cancel_order_instructions mm c True) (to_cancel reconciled)
           = map Inr cancels \<and>
         map (build_place_order_instructions mm)
             (assign_client_ids ctx (draws s) (to_place reconciled)) = map Inr places \<and>
         build_crank_instructions mm = Inr crank \<and>
         build_settle_instructions mm = Inr settle \<and>
         (if redeem_wanted mm ms1 then build_redeem_instructions mm = Inr redeem
          else redeem = []) \<and>
         r = execute mm (payer @ concat cancels @ concat places @ crank @ settle @ redeem) \<and>
         acts = map Build_cancel (to_cancel reconciled) @
                place_actions (assign_client_ids ctx (draws s) (to_place reconciled)) @
                [Build_crank, Build_settle] @
                (if redeem_wanted mm ms1 then [Build_redeem] else []) @
                [Execute (payer @ concat cancels @ concat places @ crank @ settle @ redeem)] @
                (case r of None \<Rightarrow> [Pulse_complete now] | Some e \<Rightarrow> [])))"
proof -
  have trivial: ?thesis if "trace s' = trace s"
    using that by (intro exI [of _ "[]"]) simp
  show ?thesis
  proof (cases "from_wallet mm")
    case (Inl e)
    with assms have "s' = s" by (simp add: pulse_body_def)
    then show ?thesis by (intro trivial) simp
  next
    case payer: (Inr payer)
    obtain d ms1 where pr: "process mm ms = (d, ms1)" by (cases "process mm ms")
    show ?thesis
    proof (cases d)
      case (Inl e)
      with payer pr assms have "s' = s" by (simp add: pulse_body_def)
      then show ?thesis by (intro trivial) simp
    next
      case desired: (Inr desired)
      show ?thesis
      proof (cases "not_quoting ms1")
        case True
        with payer pr desired assms have "s' = s" by (simp add: pulse_body_def)
        then show ?thesis by (intro trivial) simp
      next
        case quoting: False
        obtain ex tr where ex: "existing_orders mm ms1 (order_tracker s) = (ex, tr)"
          by (cases "existing_orders mm ms1 (order_tracker s)")
        show ?thesis
        proof (cases ex)
          case (Inl e)
          with payer pr desired quoting ex assms have "s' = s\<lparr>order_tracker := tr\<rparr>"
            by (simp add: pulse_body_def)
          then show ?thesis by (intro trivial) simp
        next
          case existing: (Inr existing)
          show ?thesis
          proof (cases "reconcile mm ms1 existing desired")
            case (Inl e)
            with payer pr desired quoting ex existing assms have "s' = s\<lparr>order_tracker := tr\<rparr>"
              by (simp add: pulse_body_def)
            then show ?thesis by (intro trivial) simp
          next
            case reconciled: (Inr reconciled)
            with payer pr desired quoting ex existing assms have
              bs: "build_and_submit mm ctx now ms1 payer reconciled (s\<lparr>order_tracker := tr\<rparr>) = (r, s')"
              by (simp add: pulse_body_def)
            from build_and_submit_result [OF bs] obtain acts where
              t: "trace s' = trace s @ acts" and pe: "\<forall>a \<in> set acts. \<not> is_pulse_error a" and
              alt: "(\<forall>a \<in> set acts. \<not> is_execute a) \<or>
      (\<exists>cancels places crank settle redeem.
         map (\<lambda>c. build_cancel_order_instructions mm c True) (to_cancel reconciled)
           = map Inr cancels \<and>
         map (build_place_order_instructions mm)
             (assign_client_ids ctx (draws s) (to_place reconciled)) = map Inr places \<and>
         build_crank_instructions mm = Inr crank \<and>
         build_settle_instructions mm = Inr settle \<and>
         (if redeem_wanted mm ms1 then build_redeem_instructions mm = Inr redeem
          else redeem = []) \<and>
         r = execute mm (payer @ concat cancels @ concat places @ crank @ settle @ redeem) \<and>
         acts = map Build_cancel (to_cancel reconciled) @
                place_actions (assign_client_ids ctx (draws s) (to_place reconciled)) @
                [Build_crank, Build_settle] @
                (if redeem_wanted mm ms1 then [Build_redeem] else []) @
                [Execute (payer @ concat cancels @ concat places @ crank @ settle @ redeem)] @
                (case r of None \<Rightarrow> [Pulse_complete now] | Some e \<Rightarrow> []))"
              by auto
            from alt show ?thesis
            proof
              assume "\<forall>a \<in> set acts. \<not> is_execute a"
              with t pe show ?thesis by blast
            next
              assume "\<exists>cancels places crank settle redeem.
         map (\<lambda>c. build_cancel_order_instructions mm c True) (to_cancel reconciled)
           = map Inr cancels \<and>
         map (build_place_order_instructions mm)
             (assign_client_ids ctx (draws s) (to_place reconciled)) = map Inr places \<and>
         build_crank_instructions mm = Inr crank \<and>
         build_settle_instructions mm = Inr settle \<and>
         (if redeem_wanted mm ms1 then build_redeem_instructions mm = Inr redeem
          else redeem = []) \<and>
         r = execute mm (payer @ concat cancels @ concat places @ crank @ settle @ redeem) \<and>
         acts = map Build_cancel (to_cancel reconciled) @
                place_actions (assign_client_ids ctx (draws s) (to_place reconciled)) @
                [Build_crank, Build_settle] @
                (if redeem_wanted mm ms1 then [Build_redeem] else []) @
                [Execute (payer @ concat cancels @ concat places @ crank @ settle @ redeem)] @
                (case r of None \<Rightarrow> [Pulse_complete now] | Some e \<Rightarrow> [])"
              then obtain cancels places crank settle redeem where full:
                "map (\<lambda>c. build_cancel_order_instructions mm c True) (to_cancel reconciled)
           = map Inr cancels"
         "map (build_place_order_instructions mm)
             (assign_client_ids ctx (draws s) (to_place reconciled)) = map Inr places"
         "build_crank_instructions mm = Inr crank"
         "build_settle_instructions mm = Inr settle"
         "if redeem_wanted mm ms1 then build_redeem_instructions mm = Inr redeem
          else redeem = []"
         "r = execute mm (payer @ concat cancels @ concat places @ crank @ settle @ redeem)"
         "acts = map Build_cancel (to_cancel reconciled) @
                place_actions (assign_client_ids ctx (draws s) (to_place reconciled)) @
                [Build_crank, Build_settle] @
                (if redeem_wanted mm ms1 then [Build_redeem] else []) @
                [Execute (payer @ concat cancels @ concat places @ crank @ settle @ redeem)] @
                (case r of None \<Rightarrow> [Pulse_complete now] | Some e \<Rightarrow> [])"
                by blast
              show ?thesis
                apply (rule exI [of _ acts])
                apply (intro conjI t pe disjI2)
                apply (rule exI [of _ payer], rule exI [of _ desired], rule exI [of _ ms1],
                       rule exI [of _ existing], rule exI [of _ tr], rule exI [of _ reconciled],
                       rule exI [of _ cancels], rule exI [of _ places], rule exI [of _ crank],
                       rule exI [of _ settle], rule exI [of _ redeem])
                using payer pr [unfolded desired] quoting ex [unfolded existing] reconciled full
                apply (intro conjI)
                apply assumption+
                done
            qed
          qed
        qed
      qed
    qed
  qed
qed

lemma pulse_actions_body:
  assumes "pulse_body mm ctx now ms s = (r, s')" and "trace s' = trace s @ acts"
  shows "pulse_actions mm ctx now ms s =
           acts @ (case r of None \<Rightarrow> [] | Some e \<Rightarrow> [Pulse_error e])"
  using assms by (simp add: pulse_actions_def pulse_def split: option.splits)

lemma execute_not_in_place_actions: "Execute b \<notin> set (place_actions ps)"
  using place_actions_no_execute [of "Execute b" ps] by auto

lemma pulse_reaches_execute:
  assumes "Execute batch \<in> set (pulse_actions mm ctx now ms s)"
  obtains payer desired ms1 existing tr reconciled cancels places crank settle redeem where
    "from_wallet mm = Inr payer"
    "process mm ms = (Inr desired, ms1)" "\<not> not_quoting ms1"
    "existing_orders mm ms1 (order_tracker s) = (Inr existing, tr)"
    "reconcile mm ms1 existing desired = Inr reconciled"
    "map (\<lambda>c. build_cancel_order_instructions mm c True) (to_cancel reconciled) = map Inr cancels"
    "map (build_place_order_instructions mm)
         (assign_client_ids ctx (draws s) (to_place reconciled)) = map Inr places"
    "build_crank_instructions mm = Inr crank"
    "build_settle_instructions mm = Inr settle"
    "if redeem_wanted mm ms1 then build_redeem_instructions mm = Inr redeem else redeem = []"
    "batch = payer @ concat cancels @ concat places @ crank @ settle @ redeem"
    "pulse_actions mm ctx now ms s =
       map Build_cancel (to_cancel reconciled) @
       place_actions (assign_client_ids ctx (draws s) (to_place reconciled)) @
       [Build_crank, Build_settle] @
       (if redeem_wanted mm ms1 then [Build_redeem] else []) @
       [Execute batch] @
       [case execute mm batch of None \<Rightarrow> Pulse_complete now | Some e \<Rightarrow> Pulse_error e]"
proof -
  obtain r s' where body: "pulse_body mm ctx now ms s = (r, s')"
    by (cases "pulse_body mm ctx now ms s")
  from pulse_body_result [OF body] obtain acts where
    t: "trace s' = trace s @ acts" and
    alt: "(\<forall>a \<in> set acts. \<not> is_execute a) \<or>
      (\<exists>payer desired ms1 existing tr reconciled cancels places crank settle redeem.
         from_wallet mm = Inr payer \<and>
         process mm ms = (Inr desired, ms1) \<and> \<not> not_quoting ms1 \<and>
         existing_orders mm ms1 (order_tracker s) = (Inr existing, tr) \<and>
         reconcile mm ms1 existing desired = Inr reconciled \<and>
         map (\<lambda>c. build_cancel_order_instructions mm c True) (to_cancel reconciled)
           = map Inr cancels \<and>
         map (build_place_order_instructions mm)
             (assign_client_ids ctx (draws s) (to_place reconciled)) = map Inr places \<and>
         build_crank_instructions mm = Inr crank \<and>
         build_settle_instructions mm = Inr settle \<and>
         (if redeem_wanted mm ms1 then build_redeem_instructions mm = Inr redeem
          else redeem = []) \<and>
         r = execute mm (payer @ concat cancels @ concat places @ crank @ settle @ redeem) \<and>
         acts = map Build_cancel (to_cancel reconciled) @
                place_actions (assign_client_ids ctx (draws s) (to_place reconciled)) @
                [Build_crank, Build_settle] @
                (if redeem_wanted mm ms1 then [Build_redeem] else []) @
                [Execute (payer @ concat cancels @ concat places @ crank @ settle @ redeem)] @
                (case r of None \<Rightarrow> [Pulse_complete now] | Some e \<Rightarrow> []))"
    by blast
  note pa = pulse_actions_body [OF body t]
  from assms pa have in_acts: "Execute batch \<in> set acts"
    by (auto split: option.splits)
  then have "\<not> (\<forall>a \<in> set acts. \<not> is_execute a)" by force
  with alt obtain payer desired ms1 existing tr reconciled cancels places crank settle redeem
    where f:
      "from_wallet mm = Inr payer"
      "process mm ms = (Inr desired, ms1)" "\<not> not_quoting ms1"
      "existing_orders mm ms1 (order_tracker s) = (Inr existing, tr)"
      "reconcile mm ms1 existing desired = Inr reconciled"
      "map (\<lambda>c. build_cancel_order_instructions mm c True) (to_cancel reconciled) = map Inr cancels"
      "map (build_place_order_instructions mm)
         (assign_client_ids ctx (draws s) (to_place reconciled)) = map Inr places"
      "build_crank_instructions mm = Inr crank"
      "build_settle_instructions mm = Inr settle"
      "if redeem_wanted mm ms1 then build_redeem_instructions mm = Inr redeem else redeem = []"
    and r: "r = execute mm (payer @ concat cancels @ concat places @ crank @ settle @ redeem)"
    and acts: "acts = map Build_cancel (to_cancel reconciled) @
                place_actions (assign_client_ids ctx (draws s) (to_place reconciled)) @
                [Build_crank, Build_settle] @
                (if redeem_wanted mm ms1 then [Build_redeem] else []) @
                [Execute (payer @ concat cancels @ concat places @ crank @ settle @ redeem)] @
                (case r of None \<Rightarrow> [Pulse_complete now] | Some e \<Rightarrow> [])"
    by blast
  let ?b = "payer @ concat cancels @ concat places @ crank @ settle @ redeem"
  from in_acts have b: "batch = ?b"
    unfolding acts using execute_not_in_place_actions
    by (auto split: option.splits if_splits)
  have "pulse_actions mm ctx now ms s =
       map Build_cancel (to_cancel reconciled) @
       place_actions (assign_client_ids ctx (draws s) (to_place reconciled)) @
       [Build_crank, Build_settle] @
       (if redeem_wanted mm ms1 then [Build_redeem] else []) @
       [Execute batch] @
       [case execute mm batch of None \<Rightarrow> Pulse_complete now | Some e \<Rightarrow> Pulse_error e]"
    unfolding pa acts b using r by (simp split: option.splits)
  with f b show thesis by (rule that)
qed

lemma assign_client_ids_length [simp]: "length (assign_client_ids ctx k ps) = length ps"
  by (induction ps arbitrary: k) auto


lemma redeem_not_in_place_actions: "Build_redeem \<notin> set (place_actions ps)"
  by (induction ps) auto

lemma redeem_wanted_iff:
  "redeem_wanted mm ms =
     (\<exists>threshold. redeem_threshold mm = Some threshold \<and> liquidity_incentives_value ms > threshold)"
  by (simp add: redeem_wanted_def split: option.splits)

lemmas demo_defs = demo_maker_def demo_context_def demo_model_state_def demo_state_def
  old_order_def accepted_def rejected_def buy_order_def

lemmas pulse_defs = pulse_def pulse_body_def build_and_submit_def submit_def redeem_wanted_def
  emit_def with_client_id_def Let_def


lemma demo_actions_accepted:
  "pulse_actions (demo_maker (Some 3) accepted False) demo_context 42 demo_model_state demo_state =
     [Build_cancel old_order,
      Track (with_client_id (buy_order 10 1) 1000),
      Build_place (with_client_id (buy_order 10 1) 1000),
      Build_crank, Build_settle, Build_redeem,
      Execute [Payer, Cancel 7, Place 1000, Crank, Settle, Redeem],
      Pulse_complete 42]"
  by (simp add: pulse_actions_def pulse_defs demo_defs)


section \<open>Properties of the pulse\<close>



text \<open>
  C2. When the desired-orders chain has been consulted and has returned, and
  \<open>not_quoting\<close> is set in the model state it leaves, \<open>pulse\<close> returns with the state
  unchanged: no cancellation and no placement is requested, nothing is submitted, the
  tracker is not touched, and neither \<open>pulse_complete\<close> nor \<open>pulse_error\<close> is emitted.
\<close>

theorem pulse_not_quoting:
  assumes "from_wallet mm = Inr payer"
      and "process mm ms = (Inr desired_orders, ms1)"
      and "not_quoting ms1"
  shows "pulse mm ctx now ms s = (None, s) \<and> pulse_actions mm ctx now ms s = []"
  using assms by (simp add: pulse_actions_def pulse_def pulse_body_def)

theorem pulse_not_quoting_witness:
  "pulse (demo_maker None accepted True) demo_context 42 demo_model_state demo_state
     = (None, demo_state) \<and>
   pulse_actions (demo_maker None accepted True) demo_context 42 demo_model_state demo_state = []"
proof -
  have 1: "from_wallet (demo_maker None accepted True) = Inr [Payer]"
    by (simp add: demo_maker_def)
  have 2: "process (demo_maker None accepted True) demo_model_state =
             (Inr [buy_order 10 1], demo_model_state\<lparr>not_quoting := True\<rparr>)"
    by (simp add: demo_maker_def)
  have 3: "not_quoting (demo_model_state\<lparr>not_quoting := True\<rparr>)" by simp
  from pulse_not_quoting [OF 1 2 3] show ?thesis .
qed

lemma filter_execute_place_actions: "filter is_execute (place_actions ps) = []"
  by (induction ps) auto

text \<open>
  C5. In a pulse that reaches the submission, the submitted sequence is the payer's
  instructions, then all cancellation instructions (in the order of \<open>to_cancel\<close>), then
  all placement instructions (in the order of \<open>to_place\<close>), then crank, settle and the
  redeem if there is one; it is submitted by the only \<open>execute\<close> call of the pulse.
\<close>

theorem pulse_one_submission_cancels_first:
  assumes "Execute batch \<in> set (pulse_actions mm ctx now ms s)"
  shows "\<exists>payer desired ms1 existing tr reconciled cancels places crank settle redeem.
     from_wallet mm = Inr payer \<and>
     process mm ms = (Inr desired, ms1) \<and>
     existing_orders mm ms1 (order_tracker s) = (Inr existing, tr) \<and>
     reconcile mm ms1 existing desired = Inr reconciled \<and>
     map (\<lambda>c. build_cancel_order_instructions mm c True) (to_cancel reconciled)
       = map Inr cancels \<and>
     map (build_place_order_instructions mm)
         (assign_client_ids ctx (draws s) (to_place reconciled)) = map Inr places \<and>
     build_crank_instructions mm = Inr crank \<and>
     build_settle_instructions mm = Inr settle \<and>
     (if redeem_wanted mm ms1 then build_redeem_instructions mm = Inr redeem else redeem = []) \<and>
     batch = payer @ concat cancels @ concat places @ crank @ settle @ redeem \<and>
     filter is_execute (pulse_actions mm ctx now ms s) = [Execute batch]"
proof -
  from assms obtain payer desired ms1 existing tr reconciled cancels places crank settle redeem
    where f:
      "from_wallet mm = Inr payer"
      "process mm ms = (Inr desired, ms1)"
      "existing_orders mm ms1 (order_tracker s) = (Inr existing, tr)"
      "reconcile mm ms1 existing desired = Inr reconciled"
      "map (\<lambda>c. build_cancel_order_instructions mm c True) (to_cancel reconciled) = map Inr cancels"
      "map (build_place_order_instructions mm)
         (assign_client_ids ctx (draws s) (to_place reconciled)) = map Inr places"
      "build_crank_instructions mm = Inr crank"
      "build_settle_instructions mm = Inr settle"
      "if redeem_wanted mm ms1 then build_redeem_instructions mm = Inr redeem else redeem = []"
      "batch = payer @ concat cancels @ concat places @ crank @ settle @ redeem"
    and acts: "pulse_actions mm ctx now ms s =
       map Build_cancel (to_cancel reconciled) @
       place_actions (assign_client_ids ctx (draws s) (to_place reconciled)) @
       [Build_crank, Build_settle] @
       (if redeem_wanted mm ms1 then [Build_redeem] else []) @
       [Execute batch] @
       [case execute mm batch of None \<Rightarrow> Pulse_complete now | Some e \<Rightarrow> Pulse_error e]"
    by (rule pulse_reaches_execute)
  have "filter is_execute (map Build_cancel (to_cancel reconciled)) = []"
    by (simp add: filter_empty_conv)
  then have once: "filter is_execute (pulse_actions mm ctx now ms s) = [Execute batch]"
    unfolding acts by (simp add: filter_execute_place_actions split: option.splits)
  from f once show ?thesis by blast
qed

theorem pulse_one_submission_cancels_first_witness:
  "Execute [Payer, Cancel 7, Place 1000, Crank, Settle, Redeem]
     \<in> set (pulse_actions (demo_maker (Some 3) accepted False) demo_context 42 demo_model_state
              demo_state) \<and>
   filter is_execute
     (pulse_actions (demo_maker (Some 3) accepted False) demo_context 42 demo_model_state
        demo_state)
     = [Execute [Payer, Cancel 7, Place 1000, Crank, Settle, Redeem]]"
proof -
  have h: "Execute [Payer, Cancel 7, Place 1000, Crank, Settle, Redeem]
     \<in> set (pulse_actions (demo_maker (Some 3) accepted False) demo_context 42 demo_model_state
              demo_state)"
    by (simp add: demo_actions_accepted)
  from pulse_one_submission_cancels_first [OF h] h show ?thesis by blast
qed



text \<open>
  C7. In a pulse that reaches the submission, the redeem is built exactly when a threshold
  is configured and the liquidity incentives value is strictly greater than it; then its
  instructions are appended after payer, cancels, places, crank and settle, and otherwise
  the batch is exactly these. The cancels and places are the ones built from the
  reconciliation result in both cases.
\<close>

theorem pulse_redeem_iff_above_threshold:
  assumes "Execute batch \<in> set (pulse_actions mm ctx now ms s)"
  shows "\<exists>payer desired ms1 existing tr reconciled cancels places crank settle redeem.
     from_wallet mm = Inr payer \<and>
     process mm ms = (Inr desired, ms1) \<and>
     existing_orders mm ms1 (order_tracker s) = (Inr existing, tr) \<and>
     reconcile mm ms1 existing desired = Inr reconciled \<and>
     map (\<lambda>c. build_cancel_order_instructions mm c True) (to_cancel reconciled)
       = map Inr cancels \<and>
     map (build_place_order_instructions mm)
         (assign_client_ids ctx (draws s) (to_place reconciled)) = map Inr places \<and>
     build_crank_instructions mm = Inr crank \<and>
     build_settle_instructions mm = Inr settle \<and>
     (Build_redeem \<in> set (pulse_actions mm ctx now ms s) \<longleftrightarrow>
        (\<exists>threshold. redeem_threshold mm = Some threshold \<and>
                      liquidity_incentives_value ms1 > threshold)) \<and>
     (if \<exists>threshold. redeem_threshold mm = Some threshold \<and>
                      liquidity_incentives_value ms1 > threshold
      then build_redeem_instructions mm = Inr redeem \<and>
           batch = (payer @ concat cancels @ concat places @ crank @ settle) @ redeem
      else batch = payer @ concat cancels @ concat places @ crank @ settle)"
proof -
  from assms obtain payer desired ms1 existing tr reconciled cancels places crank settle redeem
    where f:
      "from_wallet mm = Inr payer"
      "process mm ms = (Inr desired, ms1)"
      "existing_orders mm ms1 (order_tracker s) = (Inr existing, tr)"
      "reconcile mm ms1 existing desired = Inr reconciled"
      "map (\<lambda>c. build_cancel_order_instructions mm c True) (to_cancel reconciled) = map Inr cancels"
      "map (build_place_order_instructions mm)
         (assign_client_ids ctx (draws s) (to_place reconciled)) = map Inr places"
      "build_crank_instructions mm = Inr crank"
      "build_settle_instructions mm = Inr settle"
    and red: "if redeem_wanted mm ms1 then build_redeem_instructions mm = Inr redeem else redeem = []"
    and b: "batch = payer @ concat cancels @ concat places @ crank @ settle @ redeem"
    and acts: "pulse_actions mm ctx now ms s =
       map Build_cancel (to_cancel reconciled) @
       place_actions (assign_client_ids ctx (draws s) (to_place reconciled)) @
       [Build_crank, Build_settle] @
       (if redeem_wanted mm ms1 then [Build_redeem] else []) @
       [Execute batch] @
       [case execute mm batch of None \<Rightarrow> Pulse_complete now | Some e \<Rightarrow> Pulse_error e]"
    by (rule pulse_reaches_execute)
  let ?above = "\<exists>threshold. redeem_threshold mm = Some threshold \<and>
                      liquidity_incentives_value ms1 > threshold"
  have w: "redeem_wanted mm ms1 = ?above" by (rule redeem_wanted_iff)
  have inn: "Build_redeem \<in> set (pulse_actions mm ctx now ms s) \<longleftrightarrow> redeem_wanted mm ms1"
    unfolding acts using redeem_not_in_place_actions
    by (auto split: option.splits)
  have bb: "if redeem_wanted mm ms1
      then build_redeem_instructions mm = Inr redeem \<and>
           batch = (payer @ concat cancels @ concat places @ crank @ settle) @ redeem
      else batch = payer @ concat cancels @ concat places @ crank @ settle"
    using red b by (simp split: if_splits)
  from f inn [unfolded w] bb [unfolded w] show ?thesis by blast
qed

theorem pulse_redeem_iff_above_threshold_witness:
  "Execute [Payer, Cancel 7, Place 1000, Crank, Settle, Redeem]
     \<in> set (pulse_actions (demo_maker (Some 3) accepted False) demo_context 42 demo_model_state
              demo_state) \<and>
   Build_redeem
     \<in> set (pulse_actions (demo_maker (Some 3) accepted False) demo_context 42 demo_model_state
              demo_state) \<and>
   redeem_threshold (demo_maker (Some 3) accepted False) = Some 3 \<and>
   liquidity_incentives_value demo_model_state > 3"
proof -
  let ?mm = "demo_maker (Some 3) accepted False"
  have h: "Execute [Payer, Cancel 7, Place 1000, Crank, Settle, Redeem]
     \<in> set (pulse_actions ?mm demo_context 42 demo_model_state demo_state)"
    by (simp add: demo_actions_accepted)
  from pulse_redeem_iff_above_threshold [OF h] obtain desired ms1 where
    p: "process ?mm demo_model_state = (Inr desired, ms1)" and
    iff: "Build_redeem \<in> set (pulse_actions ?mm demo_context 42 demo_model_state demo_state)
          \<longleftrightarrow> (\<exists>threshold. redeem_threshold ?mm = Some threshold \<and>
                             liquidity_incentives_value ms1 > threshold)"
    by blast
  from p have "ms1 = demo_model_state\<lparr>not_quoting := False\<rparr>"
    by (simp add: demo_maker_def)
  then have v: "liquidity_incentives_value ms1 = 5"
    by (simp add: demo_model_state_def)
  have t: "redeem_threshold ?mm = Some 3" by (simp add: demo_maker_def)
  from iff v t have r: "Build_redeem
     \<in> set (pulse_actions ?mm demo_context 42 demo_model_state demo_state)" by simp
  have "liquidity_incentives_value demo_model_state > 3" by (simp add: demo_model_state_def)
  with h r t show ?thesis by blast
qed

section \<open>Bounded retry\<close>

lemma attempting_always_failing:
  assumes "\<forall>fs. \<exists>e. fst (func fs) = Inl e" and "pauses \<noteq> []"
  shows "calls (snd (attempting func pauses st)) = calls st + length pauses \<and>
         paused (snd (attempting func pauses st)) = paused st @ butlast pauses \<and>
         (\<exists>e. fst (attempting func pauses st) = Exhausted e \<and>
              fst (func (((\<lambda>fs. snd (func fs)) ^^ (length pauses - 1)) (func_state st))) = Inl e)"
  using assms(2)
proof (induction pauses arbitrary: st)
  case Nil
  then show ?case by simp
next
  case (Cons pause remaining)
  from assms(1) obtain e where e: "fst (func (func_state st)) = Inl e" by blast
  obtain fs where f: "func (func_state st) = (Inl e, fs)"
    using e by (cases "func (func_state st)") simp
  show ?case
  proof (cases "remaining = []")
    case True
    with f show ?thesis by simp
  next
    case False
    let ?st = "st\<lparr>func_state := fs, calls := Suc (calls st), paused := paused st @ [pause]\<rparr>"
    from f False have step:
      "attempting func (pause # remaining) st = attempting func remaining ?st"
      by (simp add: Let_def)
    from False obtain n where n: "length remaining = Suc n" by (cases remaining) auto
    define g where "g = (\<lambda>fs. snd (func fs))"
    have "g (func_state st) = fs" using f by (simp add: g_def)
    then have "(g ^^ Suc n) (func_state st) = (g ^^ n) fs"
      by (simp add: funpow_swap1)
    then have it: "((\<lambda>fs. snd (func fs)) ^^ (length (pause # remaining) - 1)) (func_state st)
            = ((\<lambda>fs. snd (func fs)) ^^ (length remaining - 1)) (func_state ?st)"
      using n unfolding g_def by simp
    from Cons.IH [OF False, of ?st] show ?thesis
      unfolding step it using False by (simp add: butlast_append)
  qed
qed

text \<open>
  C4. For a pause sequence of length N \<ge> 1: when the operation raises on every attempt,
  \<open>run\<close> calls it exactly N times and then the failure of the N-th attempt reaches the
  caller; when the operation succeeds on the first attempt, \<open>run\<close> calls it exactly once,
  returns its result and takes no pause.
\<close>

theorem run_call_count:
  assumes "pauses \<noteq> []"
  shows "((\<forall>fs. \<exists>e. fst (func fs) = Inl e) \<longrightarrow>
            calls (snd (run func pauses fs0)) = length pauses \<and>
            (\<exists>e. fst (run func pauses fs0) = Exhausted e \<and>
                 fst (func (((\<lambda>fs. snd (func fs)) ^^ (length pauses - 1)) fs0)) = Inl e)) \<and>
         (\<forall>result. fst (func fs0) = Inr result \<longrightarrow>
            calls (snd (run func pauses fs0)) = 1 \<and>
            fst (run func pauses fs0) = Succeeded result \<and>
            paused (snd (run func pauses fs0)) = [])"
proof (intro conjI impI allI)
  assume a: "\<forall>fs. \<exists>e. fst (func fs) = Inl e"
  note r = attempting_always_failing [OF a assms, of "\<lparr>func_state = fs0, calls = 0, paused = []\<rparr>"]
  from r show "calls (snd (run func pauses fs0)) = length pauses" by (simp add: run_def)
  from r show "\<exists>e. fst (run func pauses fs0) = Exhausted e \<and>
                 fst (func (((\<lambda>fs. snd (func fs)) ^^ (length pauses - 1)) fs0)) = Inl e"
    by (simp add: run_def)
next
  fix result
  assume "fst (func fs0) = Inr result"
  then obtain fs where f: "func fs0 = (Inr result, fs)" by (cases "func fs0") simp
  from assms obtain pause remaining where p: "pauses = pause # remaining" by (cases pauses) auto
  from f p show "calls (snd (run func pauses fs0)) = 1" by (simp add: run_def)
  from f p show "fst (run func pauses fs0) = Succeeded result" by (simp add: run_def)
  from f p show "paused (snd (run func pauses fs0)) = []" by (simp add: run_def)
qed

theorem run_call_count_witness:
  "calls (snd (run raising_func [0, 0, 0, 0] 0)) = 4 \<and>
   func_state (snd (run raising_func [0, 0, 0, 0] 0)) = 4 \<and>
   fst (run raising_func [0, 0, 0, 0] 0) = Exhausted (Exception ''Test'') \<and>
   calls (snd (run returning_func [0, 0, 0, 0] 0)) = 1 \<and>
   fst (run returning_func [0, 0, 0, 0] 0) = Succeeded 1"
proof -
  have ne: "[0, 0, 0, 0 :: rat] \<noteq> []" by simp
  have fail: "\<forall>fs. \<exists>e. fst (raising_func fs) = Inl e" by (simp add: raising_func_def)
  have ok: "fst (returning_func 0) = Inr 1" by (simp add: returning_func_def)
  from run_call_count [OF ne, of raising_func 0] fail
  have 1: "calls (snd (run raising_func [0, 0, 0, 0] 0)) = 4" by simp
  from run_call_count [OF ne, of returning_func 0] ok
  have 2: "calls (snd (run returning_func [0, 0, 0, 0] 0)) = 1 \<and>
           fst (run returning_func [0, 0, 0, 0] 0) = Succeeded 1" by simp
  have 3: "func_state (snd (run raising_func [0, 0, 0, 0] 0)) = 4 \<and>
           fst (run raising_func [0, 0, 0, 0] 0) = Exhausted (Exception ''Test'')"
    by (simp add: run_def raising_func_def)
  from 1 2 3 show ?thesis by simp
qed

section \<open>Tracking of placed orders\<close>

lemma tracker_insert_fresh:
  "cid \<notin> fst ` set tracked \<Longrightarrow> tracker_insert cid ord tracked = tracked @ [(cid, ord)]"
  by (induction cid ord tracked rule: tracker_insert.induct) auto

lemma tracker_insert_keys:
  "fst ` set (tracker_insert cid ord tracked) = insert cid (fst ` set tracked)"
  by (induction cid ord tracked rule: tracker_insert.induct) auto

lemma tracker_insert_values:
  "(\<forall>(k, v) \<in> set tracked. client_id v = k) \<Longrightarrow> client_id ord = cid \<Longrightarrow>
   (\<forall>(k, v) \<in> set (tracker_insert cid ord tracked). client_id v = k)"
  by (induction cid ord tracked rule: tracker_insert.induct) auto

text \<open>
  C8. For an order whose correlation id is not tracked yet: after \<open>track\<close>, a call of
  \<open>existing_orders\<close> with an empty remote view returns a sequence that contains the order;
  with a remote view that contains an order of the same correlation id, the orders of that
  id in the result are exactly the remote ones (no tracked copy is added), and the call
  leaves no entry for that id in the tracked set.
\<close>

theorem tracked_order_visible_until_remote:
  assumes "client_id ord \<notin> fst ` set tracked"
      and "\<forall>(cid, tracked_order) \<in> set tracked. client_id tracked_order = cid"
  shows "ord \<in> set (fst (tracker_existing_orders [] (tracker_track ord tracked))) \<and>
         (\<forall>remote :: order list. client_id ord \<in> client_id ` set remote \<longrightarrow>
            filter (\<lambda>x. client_id x = client_id ord)
                   (fst (tracker_existing_orders remote (tracker_track ord tracked)))
              = filter (\<lambda>x. client_id x = client_id ord) remote \<and>
            client_id ord
              \<notin> fst ` set (snd (tracker_existing_orders remote (tracker_track ord tracked))))"
proof (intro conjI allI impI)
  from assms(1) have t: "tracker_track ord tracked = tracked @ [(client_id ord, ord)]"
    by (simp add: tracker_track_def tracker_insert_fresh)
  show "ord \<in> set (fst (tracker_existing_orders [] (tracker_track ord tracked)))"
    by (simp add: t tracker_existing_orders_def)
  fix remote :: "order list"
  assume r: "client_id ord \<in> client_id ` set remote"
  let ?in_flight = "filter (\<lambda>(cid, ord). cid \<notin> set (map client_id remote)) (tracker_track ord tracked)"
  have vals: "\<forall>(k, v) \<in> set (tracker_track ord tracked). client_id v = k"
    using assms(2) unfolding tracker_track_def by (rule tracker_insert_values) simp
  have "\<forall>x \<in> set (map snd ?in_flight). client_id x \<noteq> client_id ord"
    using vals r by auto
  then have "filter (\<lambda>x. client_id x = client_id ord) (map snd ?in_flight) = []"
    by (simp add: filter_empty_conv)
  then show "filter (\<lambda>x. client_id x = client_id ord)
                   (fst (tracker_existing_orders remote (tracker_track ord tracked)))
              = filter (\<lambda>x. client_id x = client_id ord) remote"
    by (simp add: tracker_existing_orders_def Let_def)
  show "client_id ord
          \<notin> fst ` set (snd (tracker_existing_orders remote (tracker_track ord tracked)))"
    using r by (auto simp: tracker_existing_orders_def Let_def)
qed

theorem tracked_order_visible_until_remote_witness:
  "placed_order \<in> set (fst (tracker_existing_orders [] (tracker_track placed_order [(7, old_order)]))) \<and>
   filter (\<lambda>x. client_id x = 1000)
      (fst (tracker_existing_orders [remote_order] (tracker_track placed_order [(7, old_order)])))
     = [remote_order] \<and>
   1000 \<notin> fst ` set (snd (tracker_existing_orders [remote_order]
                              (tracker_track placed_order [(7, old_order)])))"
proof -
  have 1: "client_id placed_order \<notin> fst ` set [(7, old_order)]"
    by (simp add: placed_order_def)
  have 2: "\<forall>(cid, tracked_order) \<in> set [(7, old_order)]. client_id tracked_order = cid"
    by (simp add: old_order_def)
  have 3: "client_id placed_order \<in> client_id ` set [remote_order]"
    by (simp add: placed_order_def remote_order_def)
  have 4: "client_id placed_order = 1000" by (simp add: placed_order_def)
  have 5: "filter (\<lambda>x. client_id x = 1000) [remote_order] = [remote_order]"
    by (simp add: remote_order_def)
  from tracked_order_visible_until_remote [OF 1 2] 3 show ?thesis
    unfolding 4 using 5 by simp
qed

end
